theory Spec2Isabelle
  imports Complex_Main "HOL-Library.Sublist" "HOL-Library.Log_Nat"
begin

section \<open>JavaScript values used by the program\<close>

text \<open>
  A JavaScript Number is either NaN, one of the two infinities, or a finite value.
  Finite values are kept as the real number they denote; the two zeros are one value
  (they are equal under every operation the program uses: truthiness, \<open><\<close>, \<open>>\<close>
  and \<open>===\<close>). The program computes no Number: it reads them from text, where
  \<open>parseFloat\<close> rounds to binary64 (\<open>toBinary64\<close> below), and compares them.
\<close>

datatype number = NaN | NegInfinity | Fin real | PosInfinity

text \<open>The relational operator \<open>a < b\<close> on Numbers: false as soon as one side is NaN.\<close>

fun num_lt :: "number \<Rightarrow> number \<Rightarrow> bool" where
  "num_lt NaN _ = False"
| "num_lt _ NaN = False"
| "num_lt (Fin a) (Fin b) = (a < b)"
| "num_lt NegInfinity NegInfinity = False"
| "num_lt NegInfinity _ = True"
| "num_lt _ NegInfinity = False"
| "num_lt PosInfinity _ = False"
| "num_lt _ PosInfinity = True"

text \<open>Strict equality \<open>a === b\<close> on Numbers: NaN is not equal to itself.\<close>

definition num_eq :: "number \<Rightarrow> number \<Rightarrow> bool" where
  "num_eq a b = (a \<noteq> NaN \<and> a = b)"

text \<open>The order in which the properties below state a minimum or a maximum.\<close>

definition num_le :: "number \<Rightarrow> number \<Rightarrow> bool" where
  "num_le a b = (num_lt a b \<or> num_eq a b)"

text \<open>ToBoolean on Numbers: zero and NaN are falsy.\<close>

definition truthy_num :: "number \<Rightarrow> bool" where
  "truthy_num a = (a \<noteq> NaN \<and> a \<noteq> Fin 0)"

text \<open>
  A field of type \<open>number | null\<close> is a \<open>number option\<close>, with \<open>None\<close> for \<open>null\<close>.
  \<open>null\<close> is falsy, converts to \<open>0\<close> under a relational operator, and is strictly
  equal only to itself.
\<close>

definition truthy :: "number option \<Rightarrow> bool" where
  "truthy v = (case v of None \<Rightarrow> False | Some a \<Rightarrow> truthy_num a)"

definition to_number :: "number option \<Rightarrow> number" where
  "to_number v = (case v of None \<Rightarrow> Fin 0 | Some a \<Rightarrow> a)"

definition js_lt :: "number option \<Rightarrow> number option \<Rightarrow> bool" where
  "js_lt a b = num_lt (to_number a) (to_number b)"

definition js_gt :: "number option \<Rightarrow> number option \<Rightarrow> bool" where
  "js_gt a b = num_lt (to_number b) (to_number a)"

definition strict_eq :: "number option \<Rightarrow> number option \<Rightarrow> bool" where
  "strict_eq a b = (case (a, b) of
      (None, None) \<Rightarrow> True
    | (Some x, Some y) \<Rightarrow> num_eq x y
    | _ \<Rightarrow> False)"

text \<open>
  A \<open>Date\<close> object is its time value: a Number, NaN for an invalid date. A field of type
  \<open>Date | null\<close> is a \<open>date option\<close>; every object is truthy, an invalid date too.
\<close>

datatype date = Date (getTime: number)

text \<open>What a call hands back: \<open>null\<close>, \<open>undefined\<close> or an object.\<close>

datatype 'a js_value = Null | Undefined | Obj 'a

definition absent :: "'a js_value \<Rightarrow> bool" where
  "absent v = (case v of Obj _ \<Rightarrow> False | _ \<Rightarrow> True)"

section \<open>Products\<close>

record product =
  url :: "string option"
  price :: "number option"
  deliveryDate :: "date option"
  rating :: "number option"
  ratingCount :: "number option"

section \<open>Strings\<close>

text \<open>
  A string is the list of its code units; the model covers the code units below 256,
  one \<open>char\<close> each. \<open>trim\<close> removes the white space and line terminators of that
  range from both ends.
\<close>

definition isWhiteSpace :: "char \<Rightarrow> bool" where
  "isWhiteSpace c = (c \<in> set [CHR 0x09, CHR 0x0A, CHR 0x0B, CHR 0x0C, CHR 0x0D, CHR 0x20, CHR 0xA0])"




definition isDigit :: "char \<Rightarrow> bool" where
  "isDigit c = (48 \<le> (of_char c :: nat) \<and> (of_char c :: nat) \<le> 57)"

definition digitVal :: "char \<Rightarrow> nat" where
  "digitVal c = of_char c - 48"

text \<open>The value of a run of decimal digits.\<close>

definition digitsValue :: "string \<Rightarrow> nat" where
  "digitsValue ds = foldl (\<lambda>a c. 10 * a + digitVal c) 0 ds"





section \<open>Regular expressions\<close>










section \<open>Field parsers\<close>



text \<open>
  \<open>parseFloat\<close>: leading white space is skipped, then the longest prefix that is a
  decimal literal is read and its value rounded to binary64; without such a prefix the
  result is NaN.
\<close>

definition exponentPart :: "string \<Rightarrow> int" where
  "exponentPart s =
     (case s of
        [] \<Rightarrow> 0
      | c # r \<Rightarrow>
          if c = CHR ''e'' \<or> c = CHR ''E'' then
            (case r of
               [] \<Rightarrow> 0
             | d # r' \<Rightarrow>
                 if d = CHR ''-'' then
                   (if takeWhile isDigit r' = [] then 0
                    else - int (digitsValue (takeWhile isDigit r')))
                 else if d = CHR ''+'' then
                   (if takeWhile isDigit r' = [] then 0
                    else int (digitsValue (takeWhile isDigit r')))
                 else int (digitsValue (takeWhile isDigit r)))
          else 0)"

text \<open>
  The binary64 value nearest to the rational \<open>p / q\<close> (\<open>q\<close> positive), ties to the even
  significand. \<open>binade\<close> is the exponent \<open>e\<close> with \<open>2 ^ e \<le> p / q < 2 ^ (e + 1)\<close>; the
  significand has 53 bits, or fewer below the smallest normal exponent \<open>-1022\<close>; a rounded
  value of \<open>2 ^ 1024\<close> or more is \<open>Infinity\<close>.
\<close>

definition roundHalfEven :: "nat \<Rightarrow> nat \<Rightarrow> nat" where
  "roundHalfEven a b =
     (let k = a div b; r = a mod b
      in if 2 * r < b then k
         else if b < 2 * r then k + 1
         else if even k then k else k + 1)"

definition binade :: "nat \<Rightarrow> nat \<Rightarrow> int" where
  "binade p q =
     (let d = bitlen (int p) - bitlen (int q)
      in if (if 0 \<le> d then q * 2 ^ nat d \<le> p else q \<le> p * 2 ^ nat (- d)) then d else d - 1)"

definition scale2 :: "real \<Rightarrow> int \<Rightarrow> real" where
  "scale2 x k = (if k < 0 then x / 2 ^ nat (- k) else x * 2 ^ nat k)"

definition toBinary64 :: "nat \<Rightarrow> nat \<Rightarrow> number" where
  "toBinary64 p q =
     (if p = 0 then Fin 0
      else
        (let e = max (binade p q) (- 1022);
             n = (if e \<le> 52 then roundHalfEven (p * 2 ^ nat (52 - e)) q
                  else roundHalfEven p (q * 2 ^ nat (e - 52)))
         in if 2 ^ 1024 \<le> scale2 (real n) (e - 52) then PosInfinity
            else Fin (scale2 (real n) (e - 52))))"

text \<open>The Number for the decimal \<open>m \<times> 10 ^ e\<close>.\<close>

definition decimalToBinary64 :: "nat \<Rightarrow> int \<Rightarrow> number" where
  "decimalToBinary64 m e =
     (if 0 \<le> e then toBinary64 (m * 10 ^ nat e) 1 else toBinary64 m (10 ^ nat (- e)))"

definition strUnsignedDecimalLiteral :: "string \<Rightarrow> number option" where
  "strUnsignedDecimalLiteral s =
     (if prefix ''Infinity'' s then Some PosInfinity
      else
        (let ip = takeWhile isDigit s;
             r1 = dropWhile isDigit s;
             fp = (case r1 of [] \<Rightarrow> []
                   | c # r \<Rightarrow> if c = CHR ''.'' then takeWhile isDigit r else []);
             r2 = (case r1 of [] \<Rightarrow> []
                   | c # r \<Rightarrow> if c = CHR ''.'' then dropWhile isDigit r else r1)
         in if ip = [] \<and> fp = [] then None
            else Some (decimalToBinary64 (digitsValue (ip @ fp))
                         (exponentPart r2 - int (length fp)))))"

fun negate :: "number \<Rightarrow> number" where
  "negate NaN = NaN"
| "negate NegInfinity = PosInfinity"
| "negate (Fin a) = Fin (- a)"
| "negate PosInfinity = NegInfinity"

definition parseFloat :: "string \<Rightarrow> number" where
  "parseFloat s =
     (case dropWhile isWhiteSpace s of
        [] \<Rightarrow> NaN
      | c # r \<Rightarrow>
          if c = CHR ''-'' then
            (case strUnsignedDecimalLiteral r of None \<Rightarrow> NaN | Some v \<Rightarrow> negate v)
          else if c = CHR ''+'' then
            (case strUnsignedDecimalLiteral r of None \<Rightarrow> NaN | Some v \<Rightarrow> v)
          else
            (case strUnsignedDecimalLiteral (c # r) of None \<Rightarrow> NaN | Some v \<Rightarrow> v))"

text \<open>
  \<open>getPriceFromElement\<close>, on what the two queries of the element give: the
  \<open>innerText\<close> of the element found, or \<open>None\<close> when \<open>querySelector\<close> finds nothing.
  An element is an object, hence truthy; the empty text is falsy.
\<close>

definition getPriceFromElement :: "string option \<Rightarrow> string option \<Rightarrow> number option" where
  "getPriceFromElement priceWholeElement priceFractionElement =
     (let totalPriceAsString =
            (case (priceWholeElement, priceFractionElement) of
               (Some whole, Some fraction) \<Rightarrow> Some (whole @ fraction)
             | _ \<Rightarrow> None)
      in case totalPriceAsString of
           None \<Rightarrow> None
         | Some s \<Rightarrow> if s \<noteq> [] then Some (parseFloat s) else None)"

section \<open>The host's Date\<close>







section \<open>Reducers\<close>

text \<open>\<open>getEarliestDeliveryDateOfProducts\<close>: the dates compare by their time values.\<close>

definition date_gt :: "date option \<Rightarrow> date option \<Rightarrow> bool" where
  "date_gt a b = js_gt (map_option getTime a) (map_option getTime b)"

definition getEarliestDeliveryDateOfProducts :: "product list \<Rightarrow> date option" where
  "getEarliestDeliveryDateOfProducts productDetails =
     (let deliveryDates = map deliveryDate (filter (\<lambda>p. deliveryDate p \<noteq> None) productDetails)
      in case deliveryDates of
           [] \<Rightarrow> None
         | d0 # _ \<Rightarrow>
             foldl (\<lambda>earliestDate d. if date_gt earliestDate d then d else earliestDate)
               d0 deliveryDates)"

definition getFastestDeliveredProducts :: "product list \<Rightarrow> product list" where
  "getFastestDeliveredProducts productDetails =
     (case getEarliestDeliveryDateOfProducts productDetails of
        None \<Rightarrow> []
      | Some earliestDate \<Rightarrow>
          filter (\<lambda>p. case deliveryDate p of
                        None \<Rightarrow> False
                      | Some d \<Rightarrow> num_eq (getTime d) (getTime earliestDate))
            (filter (\<lambda>p. deliveryDate p \<noteq> None) productDetails))"

definition getLowestPriceOfProducts :: "product list \<Rightarrow> number option" where
  "getLowestPriceOfProducts productDetails =
     (let prices = map price (filter (\<lambda>p. truthy (price p)) productDetails)
      in case prices of
           [] \<Rightarrow> None
         | p0 # _ \<Rightarrow>
             foldl (\<lambda>lowestPrice pr. if js_gt lowestPrice pr then pr else lowestPrice)
               p0 prices)"

definition getProductsOfLowestPrice :: "product list \<Rightarrow> product list" where
  "getProductsOfLowestPrice productDetails =
     (let lowestPrice = getLowestPriceOfProducts productDetails
      in filter (\<lambda>p. truthy (price p) \<and> strict_eq (price p) lowestPrice) productDetails)"

definition getHighestRatingOfProducts :: "product list \<Rightarrow> number option" where
  "getHighestRatingOfProducts productDetails =
     (let ratings = map rating (filter (\<lambda>p. truthy (rating p)) productDetails)
      in case ratings of
           [] \<Rightarrow> None
         | r0 # _ \<Rightarrow>
             foldl (\<lambda>highestRating r. if js_lt highestRating r then r else highestRating)
               r0 ratings)"

definition getProductsOfHighestRating :: "product list \<Rightarrow> product list" where
  "getProductsOfHighestRating productDetails =
     (let highestRating = getHighestRatingOfProducts productDetails
      in if \<not> truthy highestRating then []
         else filter (\<lambda>p. truthy (rating p) \<and> strict_eq (rating p) highestRating)
                productDetails)"

section \<open>The cascading optimizer\<close>

text \<open>\<open>Optimizations\<close> is the dispatch object, in the order of its keys.\<close>

definition Optimizations :: "(string \<times> (product list \<Rightarrow> product list)) list" where
  "Optimizations =
     [(''PRICE'', getProductsOfLowestPrice),
      (''DELIVERY_DATE'', getFastestDeliveredProducts),
      (''RATING'', getProductsOfHighestRating)]"

text \<open>\<open>Object.keys(Optimizations).includes(type)\<close>\<close>

definition validCriterion :: "string \<Rightarrow> bool" where
  "validCriterion t = (t \<in> set (map fst Optimizations))"

text \<open>
  The \<open>for\<close> loop of \<open>getProductOptimizedFor\<close>, on the candidates kept so far and the
  criteria still to come. \<open>None\<close> is the early \<open>return null\<close>. A tag that passes the
  test is a key of the dispatch object, so the lookup \<open>Optimizations[type]\<close> finds a
  function (lemma \<open>validCriterion_map_of\<close>).
\<close>

fun cascade :: "product list \<Rightarrow> string list \<Rightarrow> product list option" where
  "cascade optimizedProducts [] = Some optimizedProducts"
| "cascade optimizedProducts (t # ts) =
     (if \<not> validCriterion t then None
      else case map_of Optimizations t of
        None \<Rightarrow> None
      | Some f \<Rightarrow>
          (let tempOptimizedProducts = f optimizedProducts
           in if tempOptimizedProducts = [] then cascade optimizedProducts ts
              else cascade tempOptimizedProducts ts))"

text \<open>The tie-break after the loop, and the read of element \<open>0\<close>.\<close>

definition tieBreak :: "product list \<Rightarrow> product list" where
  "tieBreak optimizedProducts =
     (if length optimizedProducts > 1
      then (let tempOptimizedProducts = getProductsOfHighestRating optimizedProducts
            in if tempOptimizedProducts \<noteq> [] then tempOptimizedProducts
               else optimizedProducts)
      else optimizedProducts)"

definition element0 :: "'a list \<Rightarrow> 'a js_value" where
  "element0 xs = (case xs of [] \<Rightarrow> Undefined | x # _ \<Rightarrow> Obj x)"

definition getProductOptimizedFor :: "product list \<Rightarrow> string list \<Rightarrow> product js_value" where
  "getProductOptimizedFor productDetails optimizationTypes =
     (case cascade productDetails optimizationTypes of
        None \<Rightarrow> Null
      | Some optimizedProducts \<Rightarrow> element0 (tieBreak optimizedProducts))"

section \<open>Example listings\<close>

definition listing :: "number option \<Rightarrow> number option \<Rightarrow> date option \<Rightarrow> product" where
  "listing pr rt dt =
     \<lparr>url = None, price = pr, deliveryDate = dt, rating = rt, ratingCount = None\<rparr>"

section \<open>Order and truthiness of Numbers\<close>

lemma truthy_iff: "truthy v \<longleftrightarrow> (\<exists>a. v = Some a \<and> a \<noteq> NaN \<and> a \<noteq> Fin 0)"
  by (cases v) (auto simp: truthy_def truthy_num_def)

lemma num_lt_irrefl: "\<not> num_lt a a"
  by (cases a) auto

lemma num_lt_asym: "num_lt a b \<Longrightarrow> \<not> num_lt b a"
  by (cases a; cases b) auto

lemma num_lt_negtrans:
  "a \<noteq> NaN \<Longrightarrow> b \<noteq> NaN \<Longrightarrow> c \<noteq> NaN \<Longrightarrow> \<not> num_lt a b \<Longrightarrow> \<not> num_lt b c \<Longrightarrow> \<not> num_lt a c"
  by (cases a; cases b; cases c) auto

lemma not_lt_iff_le: "a \<noteq> NaN \<Longrightarrow> b \<noteq> NaN \<Longrightarrow> \<not> num_lt b a \<longleftrightarrow> num_le a b"
  by (cases a; cases b) (auto simp: num_le_def num_eq_def)

lemma fold_extremum:
  assumes irrefl: "\<And>a. \<not> R a a"
    and asym: "\<And>a b. R a b \<Longrightarrow> \<not> R b a"
    and negtrans: "\<And>a b c. a \<in> S \<Longrightarrow> b \<in> S \<Longrightarrow> c \<in> S \<Longrightarrow> \<not> R a b \<Longrightarrow> \<not> R b c \<Longrightarrow> \<not> R a c"
    and "a \<in> S" and "set xs \<subseteq> S"
  shows "foldl (\<lambda>best x. if R best x then x else best) a xs \<in> set (a # xs)
         \<and> \<not> R (foldl (\<lambda>best x. if R best x then x else best) a xs) a
         \<and> (\<forall>x\<in>set xs. \<not> R (foldl (\<lambda>best x. if R best x then x else best) a xs) x)"
  using \<open>a \<in> S\<close> \<open>set xs \<subseteq> S\<close>
proof (induction xs arbitrary: a)
  case Nil
  then show ?case by (simp add: irrefl)
next
  case (Cons x xs)
  let ?F = "foldl (\<lambda>best x. if R best x then x else best)"
  define a' where "a' = (if R a x then x else a)"
  have a'S: "a' \<in> S" using Cons.prems by (simp add: a'_def)
  have xsS: "set xs \<subseteq> S" using Cons.prems by simp
  have xS: "x \<in> S" using Cons.prems by simp
  have step: "?F a (x # xs) = ?F a' xs" by (simp add: a'_def)
  from Cons.IH[OF a'S xsS]
  have mem: "?F a' xs \<in> set (a' # xs)"
    and na': "\<not> R (?F a' xs) a'"
    and nxs: "\<forall>y\<in>set xs. \<not> R (?F a' xs) y" by auto
  have mS: "?F a' xs \<in> S" using mem a'S xsS by auto
  have a'a: "\<not> R a' a" by (auto simp: a'_def irrefl asym)
  have a'x: "\<not> R a' x" by (auto simp: a'_def irrefl)
  have "\<not> R (?F a' xs) a" using negtrans[OF mS a'S \<open>a \<in> S\<close> na' a'a] .
  moreover have "\<not> R (?F a' xs) x" using negtrans[OF mS a'S xS na' a'x] .
  moreover have "?F a' xs \<in> set (a # x # xs)" using mem by (auto simp: a'_def split: if_splits)
  ultimately show ?case using nxs unfolding step by simp
qed

lemma js_gt_irrefl: "\<not> js_gt a a"
  by (simp add: js_gt_def num_lt_irrefl)

lemma js_gt_asym: "js_gt a b \<Longrightarrow> \<not> js_gt b a"
  by (simp add: js_gt_def num_lt_asym)

lemma to_number_truthy: "truthy v \<Longrightarrow> to_number v \<noteq> NaN"
  by (auto simp: truthy_iff to_number_def)

lemma js_gt_negtrans:
  "a \<in> Collect truthy \<Longrightarrow> b \<in> Collect truthy \<Longrightarrow> c \<in> Collect truthy \<Longrightarrow>
   \<not> js_gt a b \<Longrightarrow> \<not> js_gt b c \<Longrightarrow> \<not> js_gt a c"
  unfolding js_gt_def
  using num_lt_negtrans[of "to_number c" "to_number b" "to_number a"]
  by (auto dest: to_number_truthy)

lemma js_lt_negtrans:
  "a \<in> Collect truthy \<Longrightarrow> b \<in> Collect truthy \<Longrightarrow> c \<in> Collect truthy \<Longrightarrow>
   \<not> js_lt a b \<Longrightarrow> \<not> js_lt b c \<Longrightarrow> \<not> js_lt a c"
  unfolding js_lt_def
  using num_lt_negtrans[of "to_number a" "to_number b" "to_number c"]
  by (auto dest: to_number_truthy)

lemma strict_eq_truthy: "truthy a \<Longrightarrow> strict_eq a b \<longleftrightarrow> a = b"
  by (cases a; cases b) (auto simp: strict_eq_def num_eq_def truthy_iff)

lemma mem_Cons_all: "y \<in> set (a # xs) \<Longrightarrow> P a \<Longrightarrow> \<forall>x\<in>set xs. P x \<Longrightarrow> P y"
  by auto

lemma mem_Cons_mem: "y \<in> set (a # xs) \<Longrightarrow> a \<in> set xs \<Longrightarrow> y \<in> set xs"
  by auto

lemma fold_lowest:
  assumes "truthy a" and "\<forall>x\<in>set xs. truthy x"
  shows "foldl (\<lambda>best x. if js_gt best x then x else best) a xs \<in> set (a # xs)
         \<and> \<not> js_gt (foldl (\<lambda>best x. if js_gt best x then x else best) a xs) a
         \<and> (\<forall>x\<in>set xs. \<not> js_gt (foldl (\<lambda>best x. if js_gt best x then x else best) a xs) x)"
proof (rule fold_extremum[where S = "Collect truthy"])
  show "\<not> js_gt a a" for a by (rule js_gt_irrefl)
  show "js_gt a b \<Longrightarrow> \<not> js_gt b a" for a b by (rule js_gt_asym)
  show "a \<in> Collect truthy \<Longrightarrow> b \<in> Collect truthy \<Longrightarrow> c \<in> Collect truthy \<Longrightarrow>
        \<not> js_gt a b \<Longrightarrow> \<not> js_gt b c \<Longrightarrow> \<not> js_gt a c" for a b c
    by (rule js_gt_negtrans)
  show "a \<in> Collect truthy" using assms(1) by simp
  show "set xs \<subseteq> Collect truthy" using assms(2) by auto
qed

lemma fold_highest:
  assumes "truthy a" and "\<forall>x\<in>set xs. truthy x"
  shows "foldl (\<lambda>best x. if js_lt best x then x else best) a xs \<in> set (a # xs)
         \<and> \<not> js_lt (foldl (\<lambda>best x. if js_lt best x then x else best) a xs) a
         \<and> (\<forall>x\<in>set xs. \<not> js_lt (foldl (\<lambda>best x. if js_lt best x then x else best) a xs) x)"
proof (rule fold_extremum[where S = "Collect truthy"])
  show "\<not> js_lt a a" for a by (simp add: js_lt_def num_lt_irrefl)
  show "js_lt a b \<Longrightarrow> \<not> js_lt b a" for a b by (simp add: js_lt_def num_lt_asym)
  show "a \<in> Collect truthy \<Longrightarrow> b \<in> Collect truthy \<Longrightarrow> c \<in> Collect truthy \<Longrightarrow>
        \<not> js_lt a b \<Longrightarrow> \<not> js_lt b c \<Longrightarrow> \<not> js_lt a c" for a b c
    by (rule js_lt_negtrans)
  show "a \<in> Collect truthy" using assms(1) by simp
  show "set xs \<subseteq> Collect truthy" using assms(2) by auto
qed

lemma lowest_price_None:
  "getLowestPriceOfProducts ps = None \<longleftrightarrow> (\<forall>p\<in>set ps. \<not> truthy (price p))"
proof (cases "filter (\<lambda>p. truthy (price p)) ps")
  case Nil
  then show ?thesis
    by (auto simp: getLowestPriceOfProducts_def filter_empty_conv)
next
  case (Cons q qs)
  let ?prices = "map price (filter (\<lambda>p. truthy (price p)) ps)"
  let ?F = "foldl (\<lambda>lowestPrice pr. if js_gt lowestPrice pr then pr else lowestPrice)"
  have sub: "\<forall>x\<in>set ?prices. truthy x" by auto
  have "q \<in> set (filter (\<lambda>p. truthy (price p)) ps)" by (simp add: Cons)
  then have q: "truthy (price q)" by simp
  have "?F (price q) ?prices \<in> set (price q # ?prices)"
    using fold_lowest[OF q sub] by blast
  then have "truthy (?F (price q) ?prices)" using q sub by (rule mem_Cons_all)
  then have "?F (price q) ?prices \<noteq> None" using truthy_iff by blast
  moreover have "getLowestPriceOfProducts ps = ?F (price q) ?prices"
    by (simp add: getLowestPriceOfProducts_def Cons)
  moreover have "\<exists>p\<in>set ps. truthy (price p)"
    using Cons by (metis filter_empty_conv list.distinct(1))
  ultimately show ?thesis by auto
qed

lemma lowest_price_Some:
  assumes "getLowestPriceOfProducts ps = Some m"
  shows "truthy_num m \<and> (\<exists>p\<in>set ps. price p = Some m)
         \<and> (\<forall>p\<in>set ps. \<forall>x. price p = Some x \<and> truthy_num x \<longrightarrow> num_le m x)"
proof (cases "filter (\<lambda>p. truthy (price p)) ps")
  case Nil
  then show ?thesis using assms by (simp add: getLowestPriceOfProducts_def)
next
  case (Cons q qs)
  let ?prices = "map price (filter (\<lambda>p. truthy (price p)) ps)"
  let ?F = "foldl (\<lambda>lowestPrice pr. if js_gt lowestPrice pr then pr else lowestPrice)"
  have sub: "\<forall>x\<in>set ?prices. truthy x" by auto
  have "q \<in> set (filter (\<lambda>p. truthy (price p)) ps)" by (simp add: Cons)
  then have q: "truthy (price q)" by simp
  have qin: "price q \<in> set ?prices" using Cons by simp
  have eq: "?F (price q) ?prices = Some m"
    using assms by (simp add: getLowestPriceOfProducts_def Cons)
  from fold_lowest[OF q sub]
  have mem: "Some m \<in> set (price q # ?prices)"
    and least: "\<forall>x\<in>set ?prices. \<not> js_gt (Some m) x"
    unfolding eq by blast+
  have mem': "Some m \<in> set ?prices" using mem qin by (rule mem_Cons_mem)
  then have tm: "truthy (Some m)" using sub by blast
  then have 1: "truthy_num m" by (simp add: truthy_def)
  have 2: "\<exists>p\<in>set ps. price p = Some m" using mem' by auto
  have 3: "num_le m x" if "p \<in> set ps" "price p = Some x" "truthy_num x" for p x
  proof -
    have "Some x \<in> set ?prices" using that by (force simp: truthy_def)
    then have "\<not> js_gt (Some m) (Some x)" using least by blast
    then have "\<not> num_lt x m" by (simp add: js_gt_def to_number_def)
    moreover have "x \<noteq> NaN" "m \<noteq> NaN" using that(3) 1 by (auto simp: truthy_num_def)
    ultimately show ?thesis using not_lt_iff_le by blast
  qed
  show ?thesis using 1 2 3 by blast
qed

lemma products_of_lowest_price:
  "getProductsOfLowestPrice ps =
     filter (\<lambda>p. truthy (price p) \<and> price p = getLowestPriceOfProducts ps) ps"
  unfolding getProductsOfLowestPrice_def Let_def
  by (rule filter_cong) (auto simp: strict_eq_truthy)

lemma highest_rating_None:
  "getHighestRatingOfProducts ps = None \<longleftrightarrow> (\<forall>p\<in>set ps. \<not> truthy (rating p))"
proof (cases "filter (\<lambda>p. truthy (rating p)) ps")
  case Nil
  then show ?thesis
    by (auto simp: getHighestRatingOfProducts_def filter_empty_conv)
next
  case (Cons q qs)
  let ?ratings = "map rating (filter (\<lambda>p. truthy (rating p)) ps)"
  let ?F = "foldl (\<lambda>highestRating r. if js_lt highestRating r then r else highestRating)"
  have sub: "\<forall>x\<in>set ?ratings. truthy x" by auto
  have "q \<in> set (filter (\<lambda>p. truthy (rating p)) ps)" by (simp add: Cons)
  then have q: "truthy (rating q)" by simp
  have "?F (rating q) ?ratings \<in> set (rating q # ?ratings)"
    using fold_highest[OF q sub] by blast
  then have "truthy (?F (rating q) ?ratings)" using q sub by (rule mem_Cons_all)
  then have "?F (rating q) ?ratings \<noteq> None" using truthy_iff by blast
  moreover have "getHighestRatingOfProducts ps = ?F (rating q) ?ratings"
    by (simp add: getHighestRatingOfProducts_def Cons)
  moreover have "\<exists>p\<in>set ps. truthy (rating p)"
    using Cons by (metis filter_empty_conv list.distinct(1))
  ultimately show ?thesis by auto
qed

lemma highest_rating_Some:
  assumes "getHighestRatingOfProducts ps = Some m"
  shows "truthy_num m \<and> (\<exists>p\<in>set ps. rating p = Some m)
         \<and> (\<forall>p\<in>set ps. \<forall>x. rating p = Some x \<and> truthy_num x \<longrightarrow> num_le x m)"
proof (cases "filter (\<lambda>p. truthy (rating p)) ps")
  case Nil
  then show ?thesis using assms by (simp add: getHighestRatingOfProducts_def)
next
  case (Cons q qs)
  let ?ratings = "map rating (filter (\<lambda>p. truthy (rating p)) ps)"
  let ?F = "foldl (\<lambda>highestRating r. if js_lt highestRating r then r else highestRating)"
  have sub: "\<forall>x\<in>set ?ratings. truthy x" by auto
  have "q \<in> set (filter (\<lambda>p. truthy (rating p)) ps)" by (simp add: Cons)
  then have q: "truthy (rating q)" by simp
  have qin: "rating q \<in> set ?ratings" using Cons by simp
  have eq: "?F (rating q) ?ratings = Some m"
    using assms by (simp add: getHighestRatingOfProducts_def Cons)
  from fold_highest[OF q sub]
  have mem: "Some m \<in> set (rating q # ?ratings)"
    and greatest: "\<forall>x\<in>set ?ratings. \<not> js_lt (Some m) x"
    unfolding eq by blast+
  have mem': "Some m \<in> set ?ratings" using mem qin by (rule mem_Cons_mem)
  then have tm: "truthy (Some m)" using sub by blast
  then have 1: "truthy_num m" by (simp add: truthy_def)
  have 2: "\<exists>p\<in>set ps. rating p = Some m" using mem' by auto
  have 3: "num_le x m" if "p \<in> set ps" "rating p = Some x" "truthy_num x" for p x
  proof -
    have "Some x \<in> set ?ratings" using that by (force simp: truthy_def)
    then have "\<not> js_lt (Some m) (Some x)" using greatest by blast
    then have "\<not> num_lt m x" by (simp add: js_lt_def to_number_def)
    moreover have "x \<noteq> NaN" "m \<noteq> NaN" using that(3) 1 by (auto simp: truthy_num_def)
    ultimately show ?thesis using not_lt_iff_le by blast
  qed
  show ?thesis using 1 2 3 by blast
qed

lemma products_of_highest_rating:
  "getProductsOfHighestRating ps =
     filter (\<lambda>p. truthy (rating p) \<and> rating p = getHighestRatingOfProducts ps) ps"
proof (cases "getHighestRatingOfProducts ps")
  case None
  then have "\<forall>p\<in>set ps. \<not> truthy (rating p)" by (simp add: highest_rating_None)
  then have "filter (\<lambda>p. truthy (rating p) \<and> rating p = getHighestRatingOfProducts ps) ps = []"
    by (simp add: filter_empty_conv)
  then show ?thesis by (simp add: getProductsOfHighestRating_def None truthy_def)
next
  case (Some m)
  then have "truthy (Some m)" using highest_rating_Some[OF Some] by (simp add: truthy_def)
  then have "getProductsOfHighestRating ps =
      filter (\<lambda>p. truthy (rating p) \<and> strict_eq (rating p) (Some m)) ps"
    by (simp add: getProductsOfHighestRating_def Some)
  also have "\<dots> = filter (\<lambda>p. truthy (rating p) \<and> rating p = Some m) ps"
    by (rule filter_cong) (auto simp: strict_eq_truthy)
  finally show ?thesis by (simp add: Some)
qed

lemma highest_rating_products_empty:
  "getProductsOfHighestRating ps = [] \<longleftrightarrow> (\<forall>p\<in>set ps. \<not> truthy (rating p))"
proof (cases "getHighestRatingOfProducts ps")
  case None
  then show ?thesis
    using highest_rating_None[of ps] by (simp add: getProductsOfHighestRating_def truthy_def)
next
  case (Some m)
  from highest_rating_Some[OF Some] obtain p where p: "p \<in> set ps" "rating p = Some m" "truthy_num m"
    by blast
  then have "truthy (rating p) \<and> rating p = getHighestRatingOfProducts ps"
    by (simp add: Some truthy_def)
  then have "getProductsOfHighestRating ps \<noteq> []"
    using p(1) unfolding products_of_highest_rating by (auto simp: filter_empty_conv)
  moreover have "truthy (rating p)" using p by (simp add: truthy_def)
  ultimately show ?thesis using p(1) by blast
qed

lemma lowest_price_products_empty:
  "getProductsOfLowestPrice ps = [] \<longleftrightarrow> (\<forall>p\<in>set ps. \<not> truthy (price p))"
proof (cases "getLowestPriceOfProducts ps")
  case None
  then show ?thesis
    using lowest_price_None[of ps] by (simp add: products_of_lowest_price filter_empty_conv)
next
  case (Some m)
  from lowest_price_Some[OF Some] obtain p where p: "p \<in> set ps" "price p = Some m" "truthy_num m"
    by blast
  then have "truthy (price p) \<and> price p = getLowestPriceOfProducts ps"
    by (simp add: Some truthy_def)
  then have "getProductsOfLowestPrice ps \<noteq> []"
    using p(1) unfolding products_of_lowest_price by (auto simp: filter_empty_conv)
  moreover have "truthy (price p)" using p by (simp add: truthy_def)
  ultimately show ?thesis using p(1) by blast
qed

lemma subseq_lowest_price: "subseq (getProductsOfLowestPrice ps) ps"
  by (simp add: getProductsOfLowestPrice_def)

lemma subseq_highest_rating: "subseq (getProductsOfHighestRating ps) ps"
  by (simp add: products_of_highest_rating)

lemma subseq_fastest: "subseq (getFastestDeliveredProducts ps) ps"
  by (auto simp: getFastestDeliveredProducts_def split: option.splits
           intro: subseq_order.trans[OF subseq_filter_left subseq_filter_left])

lemma map_of_Optimizations:
  "map_of Optimizations t =
     (if t = ''PRICE'' then Some getProductsOfLowestPrice
      else if t = ''DELIVERY_DATE'' then Some getFastestDeliveredProducts
      else if t = ''RATING'' then Some getProductsOfHighestRating
      else None)"
  by (simp add: Optimizations_def)

lemma validCriterion_iff:
  "validCriterion t \<longleftrightarrow> t \<in> {''PRICE'', ''DELIVERY_DATE'', ''RATING''}"
  by (auto simp: validCriterion_def Optimizations_def)

lemma validCriterion_map_of: "validCriterion t \<longleftrightarrow> map_of Optimizations t \<noteq> None"
  by (simp add: validCriterion_iff map_of_Optimizations)

lemma cascade_Cons [simp]:
  "cascade c (t # ts) =
     (case map_of Optimizations t of
        None \<Rightarrow> None
      | Some f \<Rightarrow> (let tmp = f c in if tmp = [] then cascade c ts else cascade tmp ts))"
  by (simp add: validCriterion_map_of split: option.splits)

declare cascade.simps(2) [simp del]

lemma Optimizations_subseq: "map_of Optimizations t = Some f \<Longrightarrow> subseq (f c) c"
  by (auto simp: map_of_Optimizations subseq_lowest_price subseq_highest_rating subseq_fastest
           split: if_splits)

lemma cascade_None_iff: "cascade c ts = None \<longleftrightarrow> (\<exists>t\<in>set ts. \<not> validCriterion t)"
  by (induction ts arbitrary: c) (auto simp: validCriterion_map_of Let_def split: option.splits)

lemma cascade_subseq: "cascade c ts = Some d \<Longrightarrow> subseq d c"
proof (induction ts arbitrary: c)
  case Nil
  then show ?case by simp
next
  case (Cons t ts)
  from Cons.prems obtain f where f: "map_of Optimizations t = Some f"
    by (auto split: option.splits)
  show ?case
  proof (cases "f c = []")
    case True
    then have "cascade c ts = Some d" using Cons.prems f by simp
    then show ?thesis by (rule Cons.IH)
  next
    case False
    then have "cascade (f c) ts = Some d" using Cons.prems f by simp
    then have "subseq d (f c)" by (rule Cons.IH)
    then show ?thesis using Optimizations_subseq[OF f] by (rule subseq_order.trans)
  qed
qed

lemma cascade_nonempty: "cascade c ts = Some d \<Longrightarrow> d = [] \<longleftrightarrow> c = []"
proof (induction ts arbitrary: c)
  case Nil
  then show ?case by simp
next
  case (Cons t ts)
  from Cons.prems obtain f where f: "map_of Optimizations t = Some f"
    by (auto split: option.splits)
  show ?case
  proof (cases "f c = []")
    case True
    then have "cascade c ts = Some d" using Cons.prems f by simp
    then show ?thesis by (rule Cons.IH)
  next
    case False
    then have "cascade (f c) ts = Some d" using Cons.prems f by simp
    then have "d = [] \<longleftrightarrow> f c = []" by (rule Cons.IH)
    moreover have "c \<noteq> []" using False Optimizations_subseq[OF f, of c] by auto
    ultimately show ?thesis using False by simp
  qed
qed

lemma cascade_append:
  "cascade c (ts @ us) = (case cascade c ts of None \<Rightarrow> None | Some d \<Rightarrow> cascade d us)"
  by (induction ts arbitrary: c) (auto simp: Let_def split: option.splits)

lemma tieBreak_subseq: "subseq (tieBreak c) c"
  by (simp add: tieBreak_def Let_def subseq_highest_rating)

lemma tieBreak_nonempty: "tieBreak c = [] \<longleftrightarrow> c = []"
  by (auto simp: tieBreak_def Let_def)

lemma element0_Obj: "element0 xs = Obj x \<Longrightarrow> x \<in> set xs"
  by (auto simp: element0_def split: list.splits)

section \<open>The cascading optimizer: claims\<close>

lemmas eval_defs =
  getProductOptimizedFor_def map_of_Optimizations tieBreak_def element0_def
  getProductsOfLowestPrice_def getLowestPriceOfProducts_def
  getProductsOfHighestRating_def getHighestRatingOfProducts_def
  getFastestDeliveredProducts_def getEarliestDeliveryDateOfProducts_def date_gt_def
  truthy_def truthy_num_def js_gt_def js_lt_def to_number_def strict_eq_def num_eq_def
  listing_def Let_def absent_def validCriterion_iff

text \<open>
  C8. Whatever the listings, a criteria list holding a tag other than \<open>PRICE\<close>,
  \<open>DELIVERY_DATE\<close> and \<open>RATING\<close>, at any position, makes \<open>getProductOptimizedFor\<close>
  return \<open>null\<close>.
\<close>

theorem unrecognized_criterion_returns_null:
  assumes "t \<in> set ts" and "t \<notin> {''PRICE'', ''DELIVERY_DATE'', ''RATING''}"
  shows "getProductOptimizedFor ps ts = Null"
proof -
  have "\<not> validCriterion t" using assms(2) by (simp add: validCriterion_iff)
  then have "cascade ps ts = None" using assms(1) cascade_None_iff by blast
  then show ?thesis by (simp add: getProductOptimizedFor_def)
qed

text \<open>
  C8 at \<open>[DELIVERY_DATE, "BOGUS"]\<close>.
\<close>

theorem unrecognized_criterion_returns_null_witness:
  "''BOGUS'' \<in> set [''DELIVERY_DATE'', ''BOGUS'']
   \<and> ''BOGUS'' \<notin> {''PRICE'', ''DELIVERY_DATE'', ''RATING''}
   \<and> getProductOptimizedFor [listing (Some (Fin 10)) (Some (Fin 4)) (Some (Date (Fin 0)))]
        [''DELIVERY_DATE'', ''BOGUS''] = Null"
  using unrecognized_criterion_returns_null
          [of "''BOGUS''" "[''DELIVERY_DATE'', ''BOGUS'']"
              "[listing (Some (Fin 10)) (Some (Fin 4)) (Some (Date (Fin 0)))]"]
  by simp

text \<open>
  C1 as stated fails: with one listing and the criteria \<open>[PRICE, "BOGUS"]\<close> the collection
  is not empty and \<open>PRICE\<close> is a valid criterion, yet the result is \<open>null\<close>.
\<close>

theorem absent_although_valid_criterion_counterexample:
  "getProductOptimizedFor [listing (Some (Fin 10)) None None] [''PRICE'', ''BOGUS''] = Null
   \<and> [listing (Some (Fin 10)) None None] \<noteq> []
   \<and> validCriterion ''PRICE''"
  by (simp add: eval_defs)

text \<open>
  C1, amended. \<open>getProductOptimizedFor\<close> returns an absent value (\<open>null\<close> or
  \<open>undefined\<close>) exactly when the listings collection is empty or some criterion of the list
  is invalid. So for a non-empty collection and a list of valid criteria only (the empty
  list too) the result is a listing.
\<close>

theorem absent_iff_empty_or_invalid:
  "absent (getProductOptimizedFor ps ts) \<longleftrightarrow> (ps = [] \<or> (\<exists>t\<in>set ts. \<not> validCriterion t))"
proof (cases "cascade ps ts")
  case None
  then show ?thesis
    using cascade_None_iff[of ps ts] by (simp add: getProductOptimizedFor_def absent_def)
next
  case (Some c)
  then have valid: "\<not> (\<exists>t\<in>set ts. \<not> validCriterion t)"
    using cascade_None_iff[of ps ts] by simp
  have "tieBreak c = [] \<longleftrightarrow> ps = []"
    using cascade_nonempty[OF Some] tieBreak_nonempty[of c] by simp
  then have "absent (element0 (tieBreak c)) \<longleftrightarrow> ps = []"
    by (cases "tieBreak c") (simp_all add: element0_def absent_def)
  then show ?thesis using valid by (simp add: getProductOptimizedFor_def Some)
qed

text \<open>
  C1, amended, at four inputs: an empty collection, an invalid criterion, valid criteria,
  no criteria.
\<close>

theorem absent_iff_empty_or_invalid_witness:
  "absent (getProductOptimizedFor [] [''PRICE''])
   \<and> absent (getProductOptimizedFor [listing (Some (Fin 10)) None None] [''PRICE'', ''BOGUS''])
   \<and> \<not> absent (getProductOptimizedFor [listing (Some (Fin 10)) None None] [''PRICE'', ''RATING''])
   \<and> \<not> absent (getProductOptimizedFor [listing (Some (Fin 10)) None None] [])"
  using absent_iff_empty_or_invalid[of "[]" "[''PRICE'']"]
    absent_iff_empty_or_invalid[of "[listing (Some (Fin 10)) None None]" "[''PRICE'', ''BOGUS'']"]
    absent_iff_empty_or_invalid[of "[listing (Some (Fin 10)) None None]" "[''PRICE'', ''RATING'']"]
    absent_iff_empty_or_invalid[of "[listing (Some (Fin 10)) None None]" "[]"]
  by (simp add: validCriterion_iff)

lemma highest_rating_idem:
  "getProductsOfHighestRating (getProductsOfHighestRating qs) = getProductsOfHighestRating qs"
proof (cases "getHighestRatingOfProducts qs")
  case None
  then have "getProductsOfHighestRating qs = []"
    using highest_rating_None[of qs] highest_rating_products_empty[of qs] by simp
  then show ?thesis by (simp add: getProductsOfHighestRating_def getHighestRatingOfProducts_def truthy_def)
next
  case (Some m)
  let ?H = "filter (\<lambda>p. truthy (rating p) \<and> rating p = Some m) qs"
  have H: "getProductsOfHighestRating qs = ?H" by (simp add: products_of_highest_rating Some)
  have tm: "truthy (Some m)" using highest_rating_Some[OF Some] by (simp add: truthy_def)
  from highest_rating_Some[OF Some] obtain p where "p \<in> set qs" "rating p = Some m" by blast
  then have pin: "p \<in> set ?H" using tm by simp
  have "getHighestRatingOfProducts ?H \<noteq> None"
    using highest_rating_None[of ?H] pin by auto
  then obtain m' where m': "getHighestRatingOfProducts ?H = Some m'" by blast
  from highest_rating_Some[OF m'] obtain q where "q \<in> set ?H" "rating q = Some m'" by blast
  then have "m' = m" by auto
  then have "getProductsOfHighestRating ?H
               = filter (\<lambda>p. truthy (rating p) \<and> rating p = Some m) ?H"
    using m' by (simp add: products_of_highest_rating)
  also have "\<dots> = ?H" by (simp add: filter_id_conv)
  finally show ?thesis unfolding H .
qed

text \<open>
  C7. When the criteria \<open>ts\<close> have left the candidates \<open>c\<close> and the reducer of the next
  criterion \<open>t\<close> gives nothing on \<open>c\<close>, the candidates after \<open>t\<close> are still \<open>c\<close>, the
  loop goes on from \<open>c\<close> with the criteria that follow, and the reducer of the criterion
  after \<open>t\<close> is applied to \<open>c\<close>; the result is the one of the list without \<open>t\<close>. In
  particular, when no listing has a price, \<open>PRICE\<close> leaves every listing a candidate,
  \<open>[PRICE, RATING]\<close> narrows the whole collection by rating and returns its first listing
  of the highest rating (its first listing when none is rated), and
  \<open>[PRICE, DELIVERY_DATE]\<close> narrows the whole collection by delivery date.
\<close>

theorem non_discriminating_criterion_skipped:
  "(cascade ps ts = Some c \<and> map_of Optimizations t = Some f \<and> f c = []
      \<longrightarrow> cascade ps (ts @ [t]) = Some c
          \<and> cascade ps (ts @ t # us) = cascade c us
          \<and> (\<forall>u g. map_of Optimizations u = Some g
                \<longrightarrow> cascade ps (ts @ t # u # us) = cascade (if g c = [] then c else g c) us)
          \<and> getProductOptimizedFor ps (ts @ t # us) = getProductOptimizedFor ps (ts @ us))
   \<and> ((\<forall>p\<in>set qs. price p = None)
      \<longrightarrow> cascade qs [''PRICE''] = Some qs
          \<and> cascade qs [''PRICE'', ''RATING'']
              = Some (if getProductsOfHighestRating qs = [] then qs
                      else getProductsOfHighestRating qs)
          \<and> cascade qs [''PRICE'', ''DELIVERY_DATE'']
              = Some (if getFastestDeliveredProducts qs = [] then qs
                      else getFastestDeliveredProducts qs)
          \<and> getProductOptimizedFor qs [''PRICE'', ''RATING''] = getProductOptimizedFor qs [''RATING'']
          \<and> getProductOptimizedFor qs [''PRICE'', ''RATING'']
              = element0 (if getProductsOfHighestRating qs = [] then qs
                          else getProductsOfHighestRating qs)
          \<and> getProductOptimizedFor qs [''PRICE'', ''DELIVERY_DATE'']
              = element0 (tieBreak (if getFastestDeliveredProducts qs = [] then qs
                                    else getFastestDeliveredProducts qs)))"
proof (intro conjI impI allI)
  assume a: "cascade ps ts = Some c \<and> map_of Optimizations t = Some f \<and> f c = []"
  then show "cascade ps (ts @ [t]) = Some c"
    by (simp add: cascade_append)
  from a show 1: "cascade ps (ts @ t # us) = cascade c us"
    by (simp add: cascade_append)
  show "cascade ps (ts @ t # u # us) = cascade (if g c = [] then c else g c) us"
    if "map_of Optimizations u = Some g" for u g
    using a that by (simp add: cascade_append Let_def)
  have "cascade ps (ts @ us) = cascade c us" using a by (simp add: cascade_append)
  then show "getProductOptimizedFor ps (ts @ t # us) = getProductOptimizedFor ps (ts @ us)"
    using 1 by (simp add: getProductOptimizedFor_def)
next
  assume "\<forall>p\<in>set qs. price p = None"
  then have "\<forall>p\<in>set qs. \<not> truthy (price p)" by (simp add: truthy_def)
  then have e: "getProductsOfLowestPrice qs = []" by (simp add: lowest_price_products_empty)
  then show "cascade qs [''PRICE''] = Some qs" by (simp add: map_of_Optimizations)
  from e show r: "cascade qs [''PRICE'', ''RATING'']
              = Some (if getProductsOfHighestRating qs = [] then qs
                      else getProductsOfHighestRating qs)"
    by (simp add: map_of_Optimizations)
  from e show d: "cascade qs [''PRICE'', ''DELIVERY_DATE'']
              = Some (if getFastestDeliveredProducts qs = [] then qs
                      else getFastestDeliveredProducts qs)"
    by (simp add: map_of_Optimizations)
  show "getProductOptimizedFor qs [''PRICE'', ''RATING''] = getProductOptimizedFor qs [''RATING'']"
    using e by (simp add: getProductOptimizedFor_def map_of_Optimizations)
  show "getProductOptimizedFor qs [''PRICE'', ''RATING'']
              = element0 (if getProductsOfHighestRating qs = [] then qs
                          else getProductsOfHighestRating qs)"
  proof (cases "getProductsOfHighestRating qs = []")
    case True
    then have "tieBreak qs = qs" by (simp add: tieBreak_def)
    then show ?thesis using r True by (simp add: getProductOptimizedFor_def)
  next
    case False
    then have "tieBreak (getProductsOfHighestRating qs) = getProductsOfHighestRating qs"
      by (simp add: tieBreak_def highest_rating_idem)
    then show ?thesis using r False by (simp add: getProductOptimizedFor_def)
  qed
  show "getProductOptimizedFor qs [''PRICE'', ''DELIVERY_DATE'']
              = element0 (tieBreak (if getFastestDeliveredProducts qs = [] then qs
                                    else getFastestDeliveredProducts qs))"
    unfolding getProductOptimizedFor_def d by simp
qed

text \<open>
  C7 on two listings without price, the first rated 5 and delivered on day 3, the second
  rated 4 and delivered on day 1: \<open>[PRICE, DELIVERY_DATE]\<close> skips \<open>PRICE\<close> and selects the
  second, \<open>[PRICE, RATING]\<close> and \<open>[PRICE]\<close> select the first.
\<close>

theorem non_discriminating_criterion_skipped_witness:
  "price (listing None (Some (Fin 5)) (Some (Date (Fin 3)))) = None
   \<and> price (listing None (Some (Fin 4)) (Some (Date (Fin 1)))) = None
   \<and> getProductsOfLowestPrice
        [listing None (Some (Fin 5)) (Some (Date (Fin 3))),
         listing None (Some (Fin 4)) (Some (Date (Fin 1)))] = []
   \<and> cascade [listing None (Some (Fin 5)) (Some (Date (Fin 3))),
               listing None (Some (Fin 4)) (Some (Date (Fin 1)))] [''PRICE'', ''DELIVERY_DATE'']
       = Some [listing None (Some (Fin 4)) (Some (Date (Fin 1)))]
   \<and> getProductOptimizedFor
        [listing None (Some (Fin 5)) (Some (Date (Fin 3))),
         listing None (Some (Fin 4)) (Some (Date (Fin 1)))] [''PRICE'', ''DELIVERY_DATE'']
       = Obj (listing None (Some (Fin 4)) (Some (Date (Fin 1))))
   \<and> getProductOptimizedFor
        [listing None (Some (Fin 5)) (Some (Date (Fin 3))),
         listing None (Some (Fin 4)) (Some (Date (Fin 1)))] [''PRICE'', ''RATING'']
       = Obj (listing None (Some (Fin 5)) (Some (Date (Fin 3))))
   \<and> getProductOptimizedFor
        [listing None (Some (Fin 5)) (Some (Date (Fin 3))),
         listing None (Some (Fin 4)) (Some (Date (Fin 1)))] [''PRICE'']
       = Obj (listing None (Some (Fin 5)) (Some (Date (Fin 3))))"
  using non_discriminating_criterion_skipped
          [of "[listing None (Some (Fin 5)) (Some (Date (Fin 3))),
                listing None (Some (Fin 4)) (Some (Date (Fin 1)))]" "[]"
              "[listing None (Some (Fin 5)) (Some (Date (Fin 3))),
                listing None (Some (Fin 4)) (Some (Date (Fin 1)))]"
              "''PRICE''" getProductsOfLowestPrice "[''DELIVERY_DATE'']"
              "[listing None (Some (Fin 5)) (Some (Date (Fin 3))),
                listing None (Some (Fin 4)) (Some (Date (Fin 1)))]"]
  by (simp add: eval_defs)

lemma subseq_member: "x \<in> set xs \<Longrightarrow> subseq xs ys \<Longrightarrow> x \<in> set ys"
  using list_emb_set[of "(=)" xs ys x] by blast

text \<open>
  C9. When every criterion of the list is valid the loop runs through the whole list and
  leaves candidates \<open>c\<close>, taken from the collection in its order. With more than one
  candidate, one of them rated (a rating of zero counts as none), the result is the
  first candidate whose rating is the highest among the candidates, and no rated candidate
  is rated higher than the result; otherwise the result is element \<open>0\<close> of \<open>c\<close>. This
  holds for every list of valid criteria, with or without \<open>RATING\<close> in it.
\<close>

theorem final_rating_tie_break:
  assumes "\<forall>t\<in>set ts. validCriterion t"
  shows "\<exists>c. cascade ps ts = Some c \<and> subseq c ps
           \<and> getProductOptimizedFor ps ts =
               (if 1 < length c \<and> (\<exists>p\<in>set c. truthy (rating p))
                then element0 (filter (\<lambda>p. truthy (rating p)
                                 \<and> rating p = getHighestRatingOfProducts c) c)
                else element0 c)
           \<and> (1 < length c \<and> (\<exists>p\<in>set c. truthy (rating p))
                \<longrightarrow> (\<exists>p\<in>set c. getProductOptimizedFor ps ts = Obj p \<and> truthy (rating p)
                       \<and> (\<forall>q\<in>set c. truthy (rating q) \<longrightarrow> \<not> js_lt (rating p) (rating q))))"
proof -
  from assms have "cascade ps ts \<noteq> None" using cascade_None_iff[of ps ts] by blast
  then obtain c where c: "cascade ps ts = Some c" by blast
  have sub: "subseq c ps" using c by (rule cascade_subseq)
  have res: "getProductOptimizedFor ps ts = element0 (tieBreak c)"
    by (simp add: getProductOptimizedFor_def c)
  let ?narrowed = "filter (\<lambda>p. truthy (rating p) \<and> rating p = getHighestRatingOfProducts c) c"
  have narrowed: "getProductsOfHighestRating c = ?narrowed"
    by (rule products_of_highest_rating)
  have empty: "?narrowed = [] \<longleftrightarrow> \<not> (\<exists>p\<in>set c. truthy (rating p))"
    using highest_rating_products_empty[of c] unfolding narrowed by blast
  have tb: "tieBreak c = (if 1 < length c \<and> (\<exists>p\<in>set c. truthy (rating p)) then ?narrowed else c)"
    unfolding tieBreak_def Let_def narrowed using empty by auto
  have eq: "getProductOptimizedFor ps ts =
      (if 1 < length c \<and> (\<exists>p\<in>set c. truthy (rating p)) then element0 ?narrowed else element0 c)"
    unfolding res tb by (rule if_distrib)
  have best: "\<exists>p\<in>set c. getProductOptimizedFor ps ts = Obj p \<and> truthy (rating p)
                \<and> (\<forall>q\<in>set c. truthy (rating q) \<longrightarrow> \<not> js_lt (rating p) (rating q))"
    if h: "1 < length c \<and> (\<exists>p\<in>set c. truthy (rating p))"
  proof -
    from h empty obtain p rest where pr: "?narrowed = p # rest" by (cases ?narrowed) auto
    then have "p \<in> set ?narrowed" by simp
    then have pc: "p \<in> set c" and tp: "truthy (rating p)"
      and hp: "rating p = getHighestRatingOfProducts c" by auto
    from tp hp obtain m where m: "getHighestRatingOfProducts c = Some m" "rating p = Some m"
      by (auto simp: truthy_iff)
    have "\<not> js_lt (rating p) (rating q)" if q: "q \<in> set c" "truthy (rating q)" for q
    proof -
      from q(2) obtain x where x: "rating q = Some x" "truthy_num x"
        by (auto simp: truthy_iff truthy_num_def)
      then have "num_le x m" using highest_rating_Some[OF m(1)] q(1) by blast
      moreover have "x \<noteq> NaN" "m \<noteq> NaN"
        using x(2) highest_rating_Some[OF m(1)] by (auto simp: truthy_num_def)
      ultimately have "\<not> num_lt m x" using not_lt_iff_le by blast
      then show ?thesis by (simp add: js_lt_def to_number_def m x)
    qed
    moreover have "getProductOptimizedFor ps ts = Obj p"
      using eq h pr by (simp add: element0_def)
    ultimately show ?thesis using pc tp by blast
  qed
  show ?thesis using c sub eq best by blast
qed

text \<open>
  C9 twice: after \<open>[PRICE]\<close> two listings at price 10 remain and the one rated 5 wins;
  after \<open>[RATING, PRICE]\<close> on two listings without a rating both remain, no rating
  narrows them, and the first is returned.
\<close>

theorem final_rating_tie_break_witness:
  "validCriterion ''RATING'' \<and> validCriterion ''PRICE''
   \<and> getProductOptimizedFor
        [listing (Some (Fin 10)) (Some (Fin 4)) None, listing (Some (Fin 10)) (Some (Fin 5)) None,
         listing (Some (Fin 15)) (Some (Fin 5)) None] [''PRICE'']
      = Obj (listing (Some (Fin 10)) (Some (Fin 5)) None)
   \<and> getProductOptimizedFor
        [listing (Some (Fin 10)) (Some (Fin 0)) None, listing (Some (Fin 10)) None None] [''RATING'', ''PRICE'']
      = Obj (listing (Some (Fin 10)) (Some (Fin 0)) None)"
  using final_rating_tie_break
    [of "[''PRICE'']" "[listing (Some (Fin 10)) (Some (Fin 4)) None,
          listing (Some (Fin 10)) (Some (Fin 5)) None, listing (Some (Fin 15)) (Some (Fin 5)) None]"]
    final_rating_tie_break
    [of "[''RATING'', ''PRICE'']"
        "[listing (Some (Fin 10)) (Some (Fin 0)) None, listing (Some (Fin 10)) None None]"]
  by (simp add: eval_defs)

text \<open>
  C10. Each reducer of the dispatch object and the final tie-break return a subsequence
  of the candidates they are given; the candidates after the loop and after the tie-break
  are a subsequence of the input collection; a listing returned by
  \<open>getProductOptimizedFor\<close> is an element of the input collection.
\<close>

theorem candidates_are_input_listings:
  "(\<forall>t f. map_of Optimizations t = Some f \<longrightarrow> subseq (f c) c)
   \<and> subseq (tieBreak c) c
   \<and> (\<forall>d. cascade ps ts = Some d \<longrightarrow> subseq d ps \<and> subseq (tieBreak d) ps)
   \<and> (\<forall>p. getProductOptimizedFor ps ts = Obj p \<longrightarrow> p \<in> set ps)"
proof (intro conjI allI impI)
  show "subseq (f c) c" if "map_of Optimizations t = Some f" for t f
    using that by (rule Optimizations_subseq)
  show "subseq (tieBreak c) c" by (rule tieBreak_subseq)
  show "subseq d ps" if "cascade ps ts = Some d" for d
    using that by (rule cascade_subseq)
  show "subseq (tieBreak d) ps" if "cascade ps ts = Some d" for d
    using tieBreak_subseq[of d] cascade_subseq[OF that] by (rule subseq_order.trans)
  show "p \<in> set ps" if r: "getProductOptimizedFor ps ts = Obj p" for p
  proof (cases "cascade ps ts")
    case None
    then show ?thesis using r by (simp add: getProductOptimizedFor_def)
  next
    case (Some d)
    then have "element0 (tieBreak d) = Obj p" using r by (simp add: getProductOptimizedFor_def)
    then have "p \<in> set (tieBreak d)" by (rule element0_Obj)
    moreover have "subseq (tieBreak d) ps"
      using tieBreak_subseq[of d] cascade_subseq[OF Some] by (rule subseq_order.trans)
    ultimately show ?thesis by (rule subseq_member)
  qed
qed

text \<open>
  C10 on three listings and \<open>[PRICE, RATING]\<close>: the result is the second listing of the
  collection.
\<close>

theorem candidates_are_input_listings_witness:
  "getProductOptimizedFor
     [listing (Some (Fin 10)) (Some (Fin 4)) None, listing (Some (Fin 10)) (Some (Fin 5)) None,
      listing (Some (Fin 15)) (Some (Fin 5)) None] [''PRICE'', ''RATING'']
     = Obj (listing (Some (Fin 10)) (Some (Fin 5)) None)
   \<and> listing (Some (Fin 10)) (Some (Fin 5)) None
       \<in> set [listing (Some (Fin 10)) (Some (Fin 4)) None, listing (Some (Fin 10)) (Some (Fin 5)) None,
              listing (Some (Fin 15)) (Some (Fin 5)) None]"
  using candidates_are_input_listings
    [of "[]" "[listing (Some (Fin 10)) (Some (Fin 4)) None, listing (Some (Fin 10)) (Some (Fin 5)) None,
          listing (Some (Fin 15)) (Some (Fin 5)) None]" "[''PRICE'', ''RATING'']"]
  by (simp add: eval_defs)

section \<open>The reducers: claims\<close>

lemma truthy_rated: "truthy v \<Longrightarrow> v \<noteq> None \<and> v \<noteq> Some (Fin 0)"
  by (auto simp: truthy_iff)

lemma filter_truthy_rated:
  "filter (\<lambda>p. truthy (rating p)) (filter (\<lambda>p. rating p \<noteq> None \<and> rating p \<noteq> Some (Fin 0)) ps)
     = filter (\<lambda>p. truthy (rating p)) ps"
  unfolding filter_filter by (rule filter_cong) (auto dest: truthy_rated)

lemma highest_rating_ignores_unrated:
  "getHighestRatingOfProducts (filter (\<lambda>p. rating p \<noteq> None \<and> rating p \<noteq> Some (Fin 0)) ps)
     = getHighestRatingOfProducts ps"
  by (simp only: getHighestRatingOfProducts_def filter_truthy_rated)

lemma products_of_highest_rating_ignores_unrated:
  "getProductsOfHighestRating (filter (\<lambda>p. rating p \<noteq> None \<and> rating p \<noteq> Some (Fin 0)) ps)
     = getProductsOfHighestRating ps"
  unfolding products_of_highest_rating highest_rating_ignores_unrated filter_filter
  by (rule filter_cong) (auto dest: truthy_rated)

text \<open>
  C6. The highest-rating reducers give the same results on a collection and on the
  collection without its listings whose rating is absent or zero. When no listing has a
  rating other than zero (or NaN, which is no rating either), the highest rating is
  \<open>null\<close> and no listing is returned. Otherwise the highest rating is the rating \<open>m\<close> of
  some listing, no rating of the collection is above it, and the listings returned are
  exactly those rated \<open>m\<close>, in the order of the collection.
\<close>

theorem highest_rating_reducers:
  "getHighestRatingOfProducts ps =
     getHighestRatingOfProducts (filter (\<lambda>p. rating p \<noteq> None \<and> rating p \<noteq> Some (Fin 0)) ps)
   \<and> getProductsOfHighestRating ps =
     getProductsOfHighestRating (filter (\<lambda>p. rating p \<noteq> None \<and> rating p \<noteq> Some (Fin 0)) ps)
   \<and> ((\<forall>p\<in>set ps. \<forall>x. rating p = Some x \<longrightarrow> x = Fin 0 \<or> x = NaN)
        \<longrightarrow> getHighestRatingOfProducts ps = None \<and> getProductsOfHighestRating ps = [])
   \<and> ((\<exists>p\<in>set ps. \<exists>x. rating p = Some x \<and> x \<noteq> Fin 0 \<and> x \<noteq> NaN)
        \<longrightarrow> (\<exists>m. getHighestRatingOfProducts ps = Some m \<and> m \<noteq> Fin 0 \<and> m \<noteq> NaN
                 \<and> (\<exists>p\<in>set ps. rating p = Some m)
                 \<and> (\<forall>p\<in>set ps. \<forall>x. rating p = Some x \<and> x \<noteq> Fin 0 \<and> x \<noteq> NaN \<longrightarrow> num_le x m)
                 \<and> getProductsOfHighestRating ps = filter (\<lambda>p. rating p = Some m) ps))"
proof (intro conjI impI)
  show "getHighestRatingOfProducts ps =
     getHighestRatingOfProducts (filter (\<lambda>p. rating p \<noteq> None \<and> rating p \<noteq> Some (Fin 0)) ps)"
    by (simp only: highest_rating_ignores_unrated)
  show "getProductsOfHighestRating ps =
     getProductsOfHighestRating (filter (\<lambda>p. rating p \<noteq> None \<and> rating p \<noteq> Some (Fin 0)) ps)"
    by (simp only: products_of_highest_rating_ignores_unrated)
next
  assume "\<forall>p\<in>set ps. \<forall>x. rating p = Some x \<longrightarrow> x = Fin 0 \<or> x = NaN"
  then have none: "\<forall>p\<in>set ps. \<not> truthy (rating p)" by (auto simp: truthy_iff)
  then show "getHighestRatingOfProducts ps = None" by (simp add: highest_rating_None)
  from none show "getProductsOfHighestRating ps = []" by (simp add: highest_rating_products_empty)
next
  assume "\<exists>p\<in>set ps. \<exists>x. rating p = Some x \<and> x \<noteq> Fin 0 \<and> x \<noteq> NaN"
  then have "\<not> (\<forall>p\<in>set ps. \<not> truthy (rating p))" by (auto simp: truthy_iff)
  then obtain m where m: "getHighestRatingOfProducts ps = Some m"
    using highest_rating_None[of ps] by (cases "getHighestRatingOfProducts ps") auto
  note hs = highest_rating_Some[OF m]
  have tm: "m \<noteq> Fin 0" "m \<noteq> NaN" using hs by (auto simp: truthy_num_def)
  have mem: "\<exists>p\<in>set ps. rating p = Some m" using hs by blast
  have top: "\<forall>p\<in>set ps. \<forall>x. rating p = Some x \<and> x \<noteq> Fin 0 \<and> x \<noteq> NaN \<longrightarrow> num_le x m"
    using hs by (simp add: truthy_num_def)
  have "getProductsOfHighestRating ps = filter (\<lambda>p. truthy (rating p) \<and> rating p = Some m) ps"
    by (simp add: products_of_highest_rating m)
  also have "\<dots> = filter (\<lambda>p. rating p = Some m) ps"
    by (rule filter_cong) (use tm in \<open>auto simp: truthy_iff\<close>)
  finally have "getProductsOfHighestRating ps = filter (\<lambda>p. rating p = Some m) ps" .
  then show "\<exists>m. getHighestRatingOfProducts ps = Some m \<and> m \<noteq> Fin 0 \<and> m \<noteq> NaN
                 \<and> (\<exists>p\<in>set ps. rating p = Some m)
                 \<and> (\<forall>p\<in>set ps. \<forall>x. rating p = Some x \<and> x \<noteq> Fin 0 \<and> x \<noteq> NaN \<longrightarrow> num_le x m)
                 \<and> getProductsOfHighestRating ps = filter (\<lambda>p. rating p = Some m) ps"
    using m tm mem top by blast
qed

text \<open>
  C6 on ratings 4, 0, none, 5, 5, and on ratings 0, none.
\<close>

theorem highest_rating_reducers_witness:
  "getHighestRatingOfProducts
     [listing None (Some (Fin 4)) None, listing None (Some (Fin 0)) None, listing None None None,
      listing None (Some (Fin 5)) None, listing (Some (Fin 7)) (Some (Fin 5)) None] = Some (Fin 5)
   \<and> getProductsOfHighestRating
     [listing None (Some (Fin 4)) None, listing None (Some (Fin 0)) None, listing None None None,
      listing None (Some (Fin 5)) None, listing (Some (Fin 7)) (Some (Fin 5)) None]
     = [listing None (Some (Fin 5)) None, listing (Some (Fin 7)) (Some (Fin 5)) None]
   \<and> getHighestRatingOfProducts [listing None (Some (Fin 0)) None, listing None None None] = None
   \<and> getProductsOfHighestRating [listing None (Some (Fin 0)) None, listing None None None] = []"
  using highest_rating_reducers
    [of "[listing None (Some (Fin 4)) None, listing None (Some (Fin 0)) None, listing None None None,
          listing None (Some (Fin 5)) None, listing (Some (Fin 7)) (Some (Fin 5)) None]"]
    highest_rating_reducers
    [of "[listing None (Some (Fin 0)) None, listing None None None]"]
  by (simp add: eval_defs)

text \<open>
  C3 at a price of zero. Over the prices 0 and 5 the lowest price computed is 5 and the
  listing priced 0 is not returned; over the single price 0 no lowest price is found.
  The filter \<open>p => p.price\<close> drops the zero with the \<open>null\<close>s.
\<close>

theorem zero_price_is_ignored:
  "getLowestPriceOfProducts [listing (Some (Fin 0)) None None, listing (Some (Fin 5)) None None]
     = Some (Fin 5)
   \<and> getProductsOfLowestPrice [listing (Some (Fin 0)) None None, listing (Some (Fin 5)) None None]
     = [listing (Some (Fin 5)) None None]
   \<and> getLowestPriceOfProducts [listing (Some (Fin 0)) None None] = None
   \<and> getProductsOfLowestPrice [listing (Some (Fin 0)) None None] = []"
  by (simp add: eval_defs)

text \<open>The example of the specification, where no price is zero.\<close>

lemma lowest_price_example:
  "getProductsOfLowestPrice
     [listing (Some (Fin 5)) (Some (Fin 1)) None, listing (Some (Fin 5)) (Some (Fin 2)) None,
      listing None None None, listing (Some (Fin 8)) None None]
   = [listing (Some (Fin 5)) (Some (Fin 1)) None, listing (Some (Fin 5)) (Some (Fin 2)) None]"
  by (simp add: eval_defs)

section \<open>The price parser: claims\<close>

lemmas parse_defs =
  getPriceFromElement_def parseFloat_def strUnsignedDecimalLiteral_def exponentPart_def
  isWhiteSpace_def isDigit_def digitsValue_def digitVal_def Let_def

lemma isDigit_not_white: "isDigit c \<Longrightarrow> \<not> isWhiteSpace c"
  by (auto simp: isDigit_def isWhiteSpace_def)

lemma isDigit_not_sign: "isDigit c \<Longrightarrow> c \<noteq> CHR ''-'' \<and> c \<noteq> CHR ''+'' \<and> c \<noteq> CHR ''I''"
  by (auto simp: isDigit_def)

lemma takeWhile_all: "list_all P xs \<Longrightarrow> takeWhile P xs = xs"
  by (induction xs) auto

lemma dropWhile_all: "list_all P xs \<Longrightarrow> dropWhile P xs = []"
  by (induction xs) auto

lemma roundHalfEven_one: "roundHalfEven a 1 = a"
  by (simp add: roundHalfEven_def)

lemma binade_integer:
  assumes "0 < n"
  shows "binade n 1 = bitlen (int n) - 1 \<and> 0 \<le> bitlen (int n) - 1
         \<and> 2 ^ nat (bitlen (int n) - 1) \<le> n"
proof -
  have pos: "0 < int n" using assms by simp
  have b1: "bitlen (int 1) = 1" by (simp add: bitlen_alt_def)
  have lo: "2 ^ nat (bitlen (int n) - 1) \<le> int n" using bitlen_bounds[OF pos] by blast
  have ge: "0 \<le> bitlen (int n) - 1" using pos by (auto simp: bitlen_alt_def)
  have "int (2 ^ nat (bitlen (int n) - 1)) \<le> int n" using lo by simp
  then have lo': "2 ^ nat (bitlen (int n) - 1) \<le> n" by (simp only: of_nat_le_iff)
  then have c: "1 * 2 ^ nat (bitlen (int n) - 1) \<le> n" by simp
  have "binade n 1 = bitlen (int n) - 1"
    unfolding binade_def Let_def b1 by (simp only: ge c if_True)
  then show ?thesis using ge lo' by blast
qed

lemma toBinary64_exact:
  assumes "n < 2 ^ 53"
  shows "toBinary64 n 1 = Fin (real n)"
proof (cases "n = 0")
  case True
  then show ?thesis by (simp add: toBinary64_def)
next
  case False
  then have pos: "0 < n" by simp
  define d where "d = bitlen (int n) - 1"
  have bd: "binade n 1 = d" and d0: "0 \<le> d" and lo: "2 ^ nat d \<le> n"
    using binade_integer[OF pos] by (simp_all add: d_def)
  have "(2::nat) ^ nat d < 2 ^ 53" using lo assms by (rule le_less_trans)
  then have "nat d < 53" by (rule power_less_imp_less_exp[rotated]) simp
  then have d52: "d \<le> 52" by simp
  have e: "max (binade n 1) (- 1022) = d" using bd d0 by simp
  have r: "roundHalfEven (n * 2 ^ nat (52 - d)) 1 = n * 2 ^ nat (52 - d)"
    by (rule roundHalfEven_one)
  have v: "scale2 (real (n * 2 ^ nat (52 - d))) (d - 52) = real n"
  proof (cases "d = 52")
    case True
    then show ?thesis by (simp add: scale2_def)
  next
    case False
    then have "d - 52 < 0" using d52 by simp
    moreover have "nat (- (d - 52)) = nat (52 - d)" by simp
    ultimately show ?thesis by (simp add: scale2_def)
  qed
  have "real n < 2 ^ 53" using assms by (metis of_nat_less_iff of_nat_numeral of_nat_power)
  also have "(2::real) ^ 53 \<le> 2 ^ 1024" by (rule power_increasing) simp_all
  finally have small: "\<not> 2 ^ 1024 \<le> real n" by (simp only: not_le)
  show ?thesis
    unfolding toBinary64_def Let_def e
    by (simp only: False d52 r v small if_True if_False)
qed

lemma strUnsignedDecimalLiteral_digits:
  assumes "list_all isDigit ds" and "ds \<noteq> []"
  shows "strUnsignedDecimalLiteral ds = Some (toBinary64 (digitsValue ds) 1)"
proof -
  from assms obtain c r where ds: "ds = c # r" and c: "isDigit c" by (cases ds) auto
  have np: "\<not> prefix ''Infinity'' ds" using isDigit_not_sign[OF c] by (auto simp: ds)
  have tw: "takeWhile isDigit ds = ds" using assms(1) by (rule takeWhile_all)
  have dw: "dropWhile isDigit ds = []" using assms(1) by (rule dropWhile_all)
  show ?thesis
    unfolding strUnsignedDecimalLiteral_def Let_def tw dw
    using np assms(2) by (simp add: exponentPart_def decimalToBinary64_def)
qed

lemma parseFloat_digits:
  assumes "list_all isDigit ds" and "ds \<noteq> []"
  shows "parseFloat ds = toBinary64 (digitsValue ds) 1"
proof -
  from assms obtain c r where ds: "ds = c # r" and c: "isDigit c" by (cases ds) auto
  have "dropWhile isWhiteSpace ds = c # r" using isDigit_not_white[OF c] by (simp add: ds)
  then show ?thesis
    using isDigit_not_sign[OF c] strUnsignedDecimalLiteral_digits[OF assms]
    by (simp add: parseFloat_def ds)
qed

lemma foldl_digits:
  "foldl (\<lambda>a c. 10 * a + digitVal c) a ds
     = a * 10 ^ length ds + foldl (\<lambda>a c. 10 * a + digitVal c) 0 ds"
proof (induction ds arbitrary: a)
  case Nil
  then show ?case by simp
next
  case (Cons d ds)
  have "foldl (\<lambda>a c. 10 * a + digitVal c) a (d # ds)
          = (10 * a + digitVal d) * 10 ^ length ds + foldl (\<lambda>a c. 10 * a + digitVal c) 0 ds"
    using Cons.IH[of "10 * a + digitVal d"] by simp
  also have "\<dots> = a * 10 ^ length (d # ds)
                 + (digitVal d * 10 ^ length ds + foldl (\<lambda>a c. 10 * a + digitVal c) 0 ds)"
    by (simp add: algebra_simps)
  also have "digitVal d * 10 ^ length ds + foldl (\<lambda>a c. 10 * a + digitVal c) 0 ds
               = foldl (\<lambda>a c. 10 * a + digitVal c) 0 (d # ds)"
    using Cons.IH[of "digitVal d"] by simp
  finally show ?case .
qed

lemma digitsValue_append:
  "digitsValue (w @ f) = digitsValue w * 10 ^ length f + digitsValue f"
  unfolding digitsValue_def foldl_append by (rule foldl_digits)

text \<open>
  C5. For texts \<open>whole\<close> and \<open>fraction\<close> of decimal digits, not both empty, the price is
  \<open>parseFloat\<close> of the concatenated text, which is the Number nearest to the integer whose
  decimal digits are those of \<open>whole\<close> followed by those of \<open>fraction\<close>: no decimal point
  comes between them. Below \<open>2 ^ 53\<close> that Number is the integer itself. Without the
  fraction element the price is \<open>null\<close>.
\<close>

theorem price_is_concatenation:
  assumes "list_all isDigit whole" and "list_all isDigit fraction" and "whole @ fraction \<noteq> []"
  shows "getPriceFromElement (Some whole) (Some fraction) = Some (parseFloat (whole @ fraction))
         \<and> parseFloat (whole @ fraction)
             = toBinary64 (digitsValue whole * 10 ^ length fraction + digitsValue fraction) 1
         \<and> (digitsValue whole * 10 ^ length fraction + digitsValue fraction < 2 ^ 53
              \<longrightarrow> parseFloat (whole @ fraction)
                   = Fin (real (digitsValue whole * 10 ^ length fraction + digitsValue fraction)))
         \<and> getPriceFromElement (Some whole) None = None"
proof -
  have "list_all isDigit (whole @ fraction)" using assms(1,2) by simp
  then have "parseFloat (whole @ fraction) = toBinary64 (digitsValue (whole @ fraction)) 1"
    using assms(3) by (rule parseFloat_digits)
  then have nearest: "parseFloat (whole @ fraction)
             = toBinary64 (digitsValue whole * 10 ^ length fraction + digitsValue fraction) 1"
    by (simp only: digitsValue_append)
  have exact: "parseFloat (whole @ fraction)
                 = Fin (real (digitsValue whole * 10 ^ length fraction + digitsValue fraction))"
    if "digitsValue whole * 10 ^ length fraction + digitsValue fraction < 2 ^ 53"
    unfolding nearest using that by (rule toBinary64_exact)
  have "getPriceFromElement (Some whole) (Some fraction) = Some (parseFloat (whole @ fraction))"
    using assms(3) by (simp add: getPriceFromElement_def)
  moreover have "getPriceFromElement (Some whole) None = None"
    by (simp add: getPriceFromElement_def)
  ultimately show ?thesis using nearest exact by blast
qed

text \<open>
  C5 at \<open>"12"\<close> and \<open>"99"\<close>: the price is 1299; at \<open>"12"\<close> and no fraction element it is
  \<open>null\<close>.
\<close>

theorem price_is_concatenation_witness:
  "list_all isDigit ''12'' \<and> list_all isDigit ''99'' \<and> ''12'' @ ''99'' \<noteq> []
   \<and> getPriceFromElement (Some ''12'') (Some ''99'') = Some (Fin 1299)
   \<and> getPriceFromElement (Some ''12'') None = None"
proof -
  have h: "list_all isDigit ''12''" "list_all isDigit ''99''" "''12'' @ ''99'' \<noteq> []"
    by (simp_all add: isDigit_def)
  have v: "digitsValue ''12'' * 10 ^ length ''99'' + digitsValue ''99'' = 1299"
    by (simp add: digitsValue_def digitVal_def)
  note t = price_is_concatenation[OF h, unfolded v]
  have "(1299::nat) < 2 ^ 53" by simp
  with t have "parseFloat (''12'' @ ''99'') = Fin (real (1299::nat))" by blast
  with t have "getPriceFromElement (Some ''12'') (Some ''99'') = Some (Fin 1299)" by simp
  with t h show ?thesis by blast
qed

text \<open>
  The rounding at work: an integer above \<open>2 ^ 53\<close> that is no binary64 value, a decimal
  fraction, and a literal beyond the largest finite Number.
\<close>

lemmas round_defs = toBinary64_def decimalToBinary64_def binade_def compute_bitlen
  roundHalfEven_def scale2_def

lemma price_beyond_exact_integers:
  "getPriceFromElement (Some ''90071992547409'') (Some ''93'') = Some (Fin 9007199254740992)"
  by (simp add: parse_defs round_defs)

lemma parseFloat_fraction: "parseFloat ''12.99'' = Fin (7312719894942843 / 2 ^ 49)"
  by (simp add: parse_defs round_defs)

lemma parseFloat_overflow: "parseFloat ''1e309'' = PosInfinity"
  by (simp add: parse_defs round_defs)

lemma price_missing_part:
  "getPriceFromElement None fraction = None \<and> getPriceFromElement whole None = None"
  by (cases whole) (simp_all add: getPriceFromElement_def)

text \<open>
  C4 at a text that is no number. Both elements exist, the concatenated text is not
  empty and does not start with a decimal literal: the price returned is NaN, not
  \<open>null\<close>. The function has no \<open>isNaN\<close> test, which its two siblings
  \<open>getRatingFromElement\<close> and \<open>getRatingCountFromElement\<close> have.
\<close>

theorem unparsable_price_is_NaN:
  "getPriceFromElement (Some ''abc'') (Some ''def'') = Some NaN
   \<and> getPriceFromElement (Some ''$'') (Some ''99'') = Some NaN"
  by (simp add: parse_defs)

section \<open>The delivery date parser: claims\<close>
































end
